theory Spec2Isabelle
  imports Main "HOL-Library.Multiset"
begin

section \<open>The filesystem analyzer of awesome-python-tools.py\<close>

text \<open>
  The development embeds \<^verbatim>\<open>FileSystemAnalyzer\<close> (lines 43 to 129 of
  \<^verbatim>\<open>src/awesome-python-tools.py\<close>): its constructor, \<^verbatim>\<open>calculate_file_hash\<close>,
  \<^verbatim>\<open>analyze_directory\<close> and the effect of \<^verbatim>\<open>print_report\<close> on the object.
  Console output is not modelled. What the operating system and the standard library
  answer (pathlib, \<^verbatim>\<open>open\<close>, hashlib) is an input of the model.
\<close>

subsection \<open>What the operating system answers\<close>

text \<open>
  The code catches \<^verbatim>\<open>(PermissionError, OSError)\<close>; \<^verbatim>\<open>PermissionError\<close> is a subclass of
  \<^verbatim>\<open>OSError\<close>, so the two constructors are the two ways an operating system call fails.
\<close>

datatype os_error = PermissionError | OSError

type_synonym bytes = string

text \<open>
  One path yielded by \<^verbatim>\<open>self.root_path.rglob('*')\<close>, with the answer of every call the
  loop makes on it: \<^verbatim>\<open>str(item)\<close>, \<^verbatim>\<open>item.suffix.lower()\<close>, \<^verbatim>\<open>item.is_file()\<close>,
  \<^verbatim>\<open>item.is_dir()\<close>, \<^verbatim>\<open>item.stat().st_size\<close> and the bytes that
  \<^verbatim>\<open>open(filepath, 'rb')\<close> followed by \<^verbatim>\<open>f.read\<close> deliver (\<open>Inl\<close> when \<^verbatim>\<open>open\<close> or a
  \<^verbatim>\<open>read\<close> raises). pathlib documents that \<^verbatim>\<open>is_file()\<close> and \<^verbatim>\<open>is_dir()\<close> return
  \<^verbatim>\<open>False\<close> for a missing path or a broken symlink and propagate other errors, such as
  permission errors; hence the two probes are sums as well. \<open>suffix_lower\<close> is the string
  \<^verbatim>\<open>item.suffix.lower()\<close> as Python computes it: \<^verbatim>\<open>str.lower\<close> works on Unicode code
  points and is not rebuilt here.
\<close>

record item =
  item_str :: string
  suffix_lower :: string
  is_file :: "os_error + bool"
  is_dir :: "os_error + bool"
  st_size :: "os_error + int"
  data :: "os_error + bytes"

text \<open>
  The view of a root path: whether it is a directory, and the paths below it in the order
  \<^verbatim>\<open>rglob('*')\<close> yields them. pathlib's glob selects nothing from a path that is not a
  directory (a missing path included) and raises nothing for it.
\<close>

record root_view =
  root_is_dir :: bool
  listing :: "item list"

type_synonym filesystem = "string \<Rightarrow> root_view"

definition rglob :: "filesystem \<Rightarrow> string \<Rightarrow> item list" where
  "rglob fs root = (if root_is_dir (fs root) then listing (fs root) else [])"

subsection \<open>Python's containers\<close>

text \<open>\<^verbatim>\<open>defaultdict(int)\<close>: a missing key reads as 0; \<^verbatim>\<open>d[k] += 1\<close> stores the sum.\<close>

type_synonym int_dict = "string \<rightharpoonup> int"

definition dd_get :: "int_dict \<Rightarrow> string \<Rightarrow> int" where
  "dd_get d k = (case d k of None \<Rightarrow> 0 | Some v \<Rightarrow> v)"

definition dd_incr :: "int_dict \<Rightarrow> string \<Rightarrow> int_dict" where
  "dd_incr d k = d(k \<mapsto> dd_get d k + 1)"

text \<open>Reading \<^verbatim>\<open>d[k]\<close> of a \<^verbatim>\<open>defaultdict(int)\<close> inserts a missing key with 0.\<close>

definition dd_touch :: "int_dict \<Rightarrow> string \<Rightarrow> int_dict" where
  "dd_touch d k = (case d k of None \<Rightarrow> d(k \<mapsto> 0) | Some v \<Rightarrow> d)"

text \<open>
  \<^verbatim>\<open>defaultdict(list)\<close>, in insertion order: \<^verbatim>\<open>d[k].append(v)\<close> appends to the list of
  an existing key and adds a new key, with the list \<^verbatim>\<open>[v]\<close>, at the end.
\<close>

fun dd_append :: "'k \<Rightarrow> 'v \<Rightarrow> ('k \<times> 'v list) list \<Rightarrow> ('k \<times> 'v list) list" where
  "dd_append k v [] = [(k, [v])]"
| "dd_append k v ((k', vs) # d) =
     (if k' = k then (k', vs @ [v]) # d else (k', vs) # dd_append k v d)"

text \<open>The list under a key; the empty list when the key is absent.\<close>

definition bucket :: "('k \<times> 'v list) list \<Rightarrow> 'k \<Rightarrow> 'v list" where
  "bucket d k = (case map_of d k of None \<Rightarrow> [] | Some vs \<Rightarrow> vs)"

subsection \<open>The analyzer object\<close>

text \<open>An element of a \<^verbatim>\<open>file_types\<close> list: the dict \<^verbatim>\<open>{'path': str(item), 'size': size}\<close>.\<close>

record entry =
  entry_path :: string
  entry_size :: int

record analyzer =
  root_path :: string
  stats :: int_dict
  duplicates :: "(string \<times> string list) list"
  file_types :: "(string \<times> entry list) list"

definition FileSystemAnalyzer :: "string \<Rightarrow> analyzer" where
  "FileSystemAnalyzer root =
     \<lparr>root_path = root, stats = Map.empty, duplicates = [], file_types = []\<rparr>"

subsection \<open>calculate_file_hash\<close>

text \<open>
  The loop \<^verbatim>\<open>while chunk := f.read(block_size): hasher.update(chunk)\<close>. The hasher is
  represented by the bytes fed to it so far: hashlib's digest is that of their
  concatenation.
\<close>

function read_chunks :: "nat \<Rightarrow> bytes \<Rightarrow> bytes \<Rightarrow> bytes" where
  "read_chunks block_size remaining hasher =
     (let chunk = take block_size remaining in
      if chunk = [] then hasher
      else read_chunks block_size (drop block_size remaining) (hasher @ chunk))"
  by pat_completeness auto
termination
  by (relation "measure (\<lambda>(block_size, remaining, hasher). length remaining)") auto

declare read_chunks.simps [simp del]

text \<open>
  \<open>hexdigest\<close> stands for \<^verbatim>\<open>hashlib.sha256(...).hexdigest()\<close> of a byte string; it is a
  parameter of the model. \<open>None\<close> is the \<^verbatim>\<open>return None\<close> of the exception handler.
\<close>

definition calculate_file_hash :: "(bytes \<Rightarrow> string) \<Rightarrow> item \<Rightarrow> nat \<Rightarrow> string option" where
  "calculate_file_hash hexdigest filepath block_size =
     (case data filepath of
        Inl e \<Rightarrow> None
      | Inr bs \<Rightarrow> Some (hexdigest (read_chunks block_size bs [])))"

subsection \<open>analyze_directory\<close>

text \<open>
  The state of the loop: the object, and the locals \<^verbatim>\<open>total_size\<close> and \<^verbatim>\<open>file_hashes\<close>.
\<close>

record scan =
  self :: analyzer
  total_size :: int
  file_hashes :: "string \<rightharpoonup> string"

definition extension_of :: "item \<Rightarrow> string" where
  "extension_of it = (if suffix_lower it = [] then ''no_extension'' else suffix_lower it)"

text \<open>
  The body of the \<^verbatim>\<open>try\<close> (lines 82 to 99). \<^verbatim>\<open>item.stat()\<close> is its first statement and
  the only one that raises: \<^verbatim>\<open>calculate_file_hash\<close> catches its own errors. The test
  \<^verbatim>\<open>if file_hash:\<close> is false for \<^verbatim>\<open>None\<close> and for the empty string.
\<close>

definition try_body :: "(bytes \<Rightarrow> string) \<Rightarrow> bool \<Rightarrow> item \<Rightarrow> scan \<Rightarrow> os_error + scan" where
  "try_body hexdigest find_duplicates it s =
     (case st_size it of
        Inl e \<Rightarrow> Inl e
      | Inr sz \<Rightarrow>
          (let s1 = s\<lparr>total_size := total_size s + sz\<rparr>;
               s2 = s1\<lparr>self := (self s1)\<lparr>stats := dd_incr (stats (self s1)) ''total_files''\<rparr>\<rparr>;
               extension = extension_of it;
               s3 = s2\<lparr>self := (self s2)\<lparr>file_types :=
                      dd_append extension \<lparr>entry_path = item_str it, entry_size = sz\<rparr>
                        (file_types (self s2))\<rparr>\<rparr>
           in if find_duplicates then
                (case calculate_file_hash hexdigest it 65536 of
                   None \<Rightarrow> Inr s3
                 | Some file_hash \<Rightarrow>
                     if file_hash \<noteq> [] then
                       (if file_hashes s3 file_hash \<noteq> None then
                          Inr (s3\<lparr>self := (self s3)\<lparr>duplicates :=
                                 dd_append file_hash (item_str it) (duplicates (self s3))\<rparr>\<rparr>)
                        else
                          (let s4 = s3\<lparr>file_hashes := (file_hashes s3)(file_hash \<mapsto> item_str it)\<rparr>
                           in Inr (s4\<lparr>self := (self s4)\<lparr>duplicates :=
                                 dd_append file_hash (item_str it) (duplicates (self s4))\<rparr>\<rparr>)))
                     else Inr s3)
              else Inr s3))"

text \<open>
  One iteration of the \<^verbatim>\<open>for\<close> loop (lines 80 to 105). The probes \<^verbatim>\<open>item.is_file()\<close> and
  \<^verbatim>\<open>item.is_dir()\<close> stand outside the \<^verbatim>\<open>try\<close>: what they raise leaves the method. The
  handler counts what the body raises.
\<close>

definition process_item :: "(bytes \<Rightarrow> string) \<Rightarrow> bool \<Rightarrow> item \<Rightarrow> scan \<Rightarrow> os_error + scan" where
  "process_item hexdigest find_duplicates it s =
     (case is_file it of
        Inl e \<Rightarrow> Inl e
      | Inr True \<Rightarrow>
          (case try_body hexdigest find_duplicates it s of
             Inl e \<Rightarrow> Inr (s\<lparr>self := (self s)\<lparr>stats := dd_incr (stats (self s)) ''errors''\<rparr>\<rparr>)
           | Inr s' \<Rightarrow> Inr s')
      | Inr False \<Rightarrow>
          (case is_dir it of
             Inl e \<Rightarrow> Inl e
           | Inr True \<Rightarrow> Inr (s\<lparr>self := (self s)\<lparr>stats := dd_incr (stats (self s)) ''total_dirs''\<rparr>\<rparr>)
           | Inr False \<Rightarrow> Inr s))"

fun for_items :: "(bytes \<Rightarrow> string) \<Rightarrow> bool \<Rightarrow> item list \<Rightarrow> scan \<Rightarrow> os_error + scan" where
  "for_items hexdigest find_duplicates [] s = Inr s"
| "for_items hexdigest find_duplicates (it # its) s =
     (case process_item hexdigest find_duplicates it s of
        Inl e \<Rightarrow> Inl e
      | Inr s' \<Rightarrow> for_items hexdigest find_duplicates its s')"

text \<open>
  \<^verbatim>\<open>print_report\<close> reads \<^verbatim>\<open>self.stats['total_files']\<close>, \<^verbatim>\<open>['total_dirs']\<close> and
  \<^verbatim>\<open>['total_size']\<close>; on a \<^verbatim>\<open>defaultdict\<close> each read inserts a missing key.
\<close>

definition print_report :: "analyzer \<Rightarrow> analyzer" where
  "print_report a =
     a\<lparr>stats := dd_touch (dd_touch (dd_touch (stats a) ''total_files'') ''total_dirs'')
                  ''total_size''\<rparr>"

text \<open>
  The method. \<open>Inl\<close> is an exception that leaves it (the state in which it leaves the
  object is not kept); \<open>Inr\<close> is the object after the call, whose \<open>stats\<close> is the returned
  \<^verbatim>\<open>self.stats\<close>. The locals \<^verbatim>\<open>total_size\<close> and \<^verbatim>\<open>file_hashes\<close> start afresh on every
  call; the three dicts of the object are those the constructor made.
\<close>

definition analyze_directory ::
    "(bytes \<Rightarrow> string) \<Rightarrow> filesystem \<Rightarrow> bool \<Rightarrow> analyzer \<Rightarrow> os_error + analyzer" where
  "analyze_directory hexdigest fs find_duplicates a =
     (case for_items hexdigest find_duplicates (rglob fs (root_path a))
             \<lparr>self = a, total_size = 0, file_hashes = Map.empty\<rparr> of
        Inl e \<Rightarrow> Inl e
      | Inr s \<Rightarrow>
          Inr (print_report ((self s)\<lparr>stats := (stats (self s))(''total_size'' \<mapsto> total_size s)\<rparr>)))"

subsection \<open>Objects and references\<close>

text \<open>
  \<^verbatim>\<open>return self.stats\<close> hands the caller the dict the object holds, not a copy. A store
  maps the address of an analyzer to its state; the returned value is a reference to the
  \<open>stats\<close> dict of the object at that address, and the caller reads the report through
  it.
\<close>

type_synonym addr = nat

type_synonym store = "addr \<rightharpoonup> analyzer"

datatype report_ref = Stats_of addr

definition read_report :: "store \<Rightarrow> report_ref \<Rightarrow> int_dict option" where
  "read_report h r = (case r of Stats_of p \<Rightarrow> map_option stats (h p))"

text \<open>
  A call \<^verbatim>\<open>obj.analyze_directory(find_duplicates)\<close> on the object at address \<open>p\<close>: the
  new store and the returned reference. \<open>None\<close>: there is no object at \<open>p\<close>.
\<close>

definition call_analyze_directory ::
    "(bytes \<Rightarrow> string) \<Rightarrow> filesystem \<Rightarrow> bool \<Rightarrow> addr \<Rightarrow> store \<Rightarrow> (os_error + store \<times> report_ref) option" where
  "call_analyze_directory hexdigest fs find_duplicates p h =
     (case h p of
        None \<Rightarrow> None
      | Some a \<Rightarrow>
          Some (case analyze_directory hexdigest fs find_duplicates a of
                  Inl e \<Rightarrow> Inl e
                | Inr a' \<Rightarrow> Inr (h(p \<mapsto> a'), Stats_of p)))"

definition call_print_report :: "addr \<Rightarrow> store \<Rightarrow> store option" where
  "call_print_report p h = (case h p of None \<Rightarrow> None | Some a \<Rightarrow> Some (h(p \<mapsto> print_report a)))"

subsection \<open>Classes of visited paths\<close>

text \<open>
  What the loop does with a visited path depends on the answers of \<^verbatim>\<open>is_file()\<close>,
  \<^verbatim>\<open>stat()\<close> and \<^verbatim>\<open>is_dir()\<close> alone. \<open>stat_succeeded\<close>: \<^verbatim>\<open>is_file()\<close> is true and
  \<^verbatim>\<open>stat()\<close> returns; whether the content of the file can be read plays no part in it.
  \<open>stat_failed\<close>: \<^verbatim>\<open>is_file()\<close> is true and \<^verbatim>\<open>stat()\<close> raises. \<open>directory\<close>: \<^verbatim>\<open>is_file()\<close>
  is false and \<^verbatim>\<open>is_dir()\<close> true. \<open>neither\<close>: both are false. \<open>probe_raises\<close>: one of
  the two probes raises. \<open>stat_size\<close> is the size \<^verbatim>\<open>stat\<close> reports (0 when it raises).
\<close>

definition stat_succeeded :: "item \<Rightarrow> bool" where
  "stat_succeeded it = (is_file it = Inr True \<and> (case st_size it of Inl e \<Rightarrow> False | Inr sz \<Rightarrow> True))"

definition stat_failed :: "item \<Rightarrow> bool" where
  "stat_failed it = (is_file it = Inr True \<and> (case st_size it of Inl e \<Rightarrow> True | Inr sz \<Rightarrow> False))"

definition directory :: "item \<Rightarrow> bool" where
  "directory it = (is_file it = Inr False \<and> is_dir it = Inr True)"

definition neither :: "item \<Rightarrow> bool" where
  "neither it = (is_file it = Inr False \<and> is_dir it = Inr False)"

definition probe_raises :: "item \<Rightarrow> bool" where
  "probe_raises it =
     (case is_file it of
        Inl e \<Rightarrow> True
      | Inr True \<Rightarrow> False
      | Inr False \<Rightarrow> (case is_dir it of Inl e \<Rightarrow> True | Inr b \<Rightarrow> False))"

definition stat_size :: "item \<Rightarrow> int" where
  "stat_size it = (case st_size it of Inl e \<Rightarrow> 0 | Inr sz \<Rightarrow> sz)"

text \<open>
  A readable file, in the sense of the specification: a regular file whose content the
  caller can read, that is, \<^verbatim>\<open>open\<close> and \<^verbatim>\<open>read\<close> succeed on it.
\<close>

definition readable_file :: "item \<Rightarrow> bool" where
  "readable_file it =
     (is_file it = Inr True \<and> (case data it of Inl e \<Rightarrow> False | Inr bs \<Rightarrow> True))"

subsection \<open>What the loop computes, stated on the visited paths\<close>

text \<open>The \<^verbatim>\<open>file_types\<close> element of a file whose \<^verbatim>\<open>stat\<close> succeeds.\<close>

definition entry_of :: "item \<Rightarrow> entry" where
  "entry_of it = \<lparr>entry_path = item_str it, entry_size = stat_size it\<rparr>"

text \<open>
  The digest \<^verbatim>\<open>analyze_directory\<close> obtains for a path (the empty string when hashing
  fails), and the files it hashes successfully: files whose \<^verbatim>\<open>stat\<close> succeeds and whose
  digest passes the test \<^verbatim>\<open>if file_hash:\<close>.
\<close>

definition digest_of :: "(bytes \<Rightarrow> string) \<Rightarrow> item \<Rightarrow> string" where
  "digest_of hexdigest it =
     (case calculate_file_hash hexdigest it 65536 of None \<Rightarrow> [] | Some h \<Rightarrow> h)"

definition hashed :: "(bytes \<Rightarrow> string) \<Rightarrow> item \<Rightarrow> bool" where
  "hashed hexdigest it = (stat_succeeded it \<and> digest_of hexdigest it \<noteq> [])"

text \<open>What one visited path does to each part of the object.\<close>

definition count_item :: "item \<Rightarrow> int_dict \<Rightarrow> int_dict" where
  "count_item it d =
     (if stat_succeeded it then dd_incr d ''total_files''
      else if stat_failed it then dd_incr d ''errors''
      else if directory it then dd_incr d ''total_dirs''
      else d)"

definition add_entry :: "item \<Rightarrow> (string \<times> entry list) list \<Rightarrow> (string \<times> entry list) list" where
  "add_entry it ft = (if stat_succeeded it then dd_append (extension_of it) (entry_of it) ft else ft)"

definition add_duplicate ::
    "(bytes \<Rightarrow> string) \<Rightarrow> bool \<Rightarrow> item \<Rightarrow> (string \<times> string list) list \<Rightarrow> (string \<times> string list) list" where
  "add_duplicate hexdigest find_duplicates it d =
     (if find_duplicates \<and> hashed hexdigest it
      then dd_append (digest_of hexdigest it) (item_str it) d else d)"

text \<open>The sum of the sizes of all entries of all \<^verbatim>\<open>file_types\<close> lists.\<close>

definition entries_total :: "(string \<times> entry list) list \<Rightarrow> int" where
  "entries_total ft = sum_list (map entry_size (concat (map snd ft)))"

text \<open>\<^verbatim>\<open>d[k] += n\<close> for a count \<open>n\<close>, which leaves \<open>d\<close> alone when nothing was counted.\<close>

definition dd_add :: "int_dict \<Rightarrow> string \<Rightarrow> nat \<Rightarrow> int_dict" where
  "dd_add d k n = (if n = 0 then d else d(k \<mapsto> dd_get d k + int n))"

text \<open>
  The three counters after a visit of \<open>its\<close>, starting from \<open>d\<close>: one count per class of
  visited path.
\<close>

definition tally :: "item list \<Rightarrow> int_dict \<Rightarrow> int_dict" where
  "tally its d =
     dd_add (dd_add (dd_add d ''total_files'' (length (filter stat_succeeded its)))
        ''errors'' (length (filter stat_failed its)))
        ''total_dirs'' (length (filter directory its))"

subsection \<open>Sample paths and trees\<close>

text \<open>
  A regular file that can be read: \<^verbatim>\<open>stat\<close> reports the length of its content. The second
  argument is its lower-cased suffix.
\<close>

definition regular_file :: "string \<Rightarrow> string \<Rightarrow> bytes \<Rightarrow> item" where
  "regular_file p sfx bs =
     \<lparr>item_str = p, suffix_lower = sfx, is_file = Inr True, is_dir = Inr False,
      st_size = Inr (int (length bs)), data = Inr bs\<rparr>"

text \<open>
  The tree of the scenario, scanned from the root \<^verbatim>\<open>.\<close>: \<^verbatim>\<open>a.txt\<close> and \<^verbatim>\<open>b.txt\<close> with
  content \<^verbatim>\<open>X\<close>, \<^verbatim>\<open>c.txt\<close> with content \<^verbatim>\<open>Y\<close>.
\<close>

definition scenario_fs :: filesystem where
  "scenario_fs root =
     \<lparr>root_is_dir = True,
      listing = [regular_file ''a.txt'' ''.txt'' ''X'', regular_file ''b.txt'' ''.txt'' ''X'',
                 regular_file ''c.txt'' ''.txt'' ''Y'']\<rparr>"

text \<open>A regular file that \<^verbatim>\<open>stat\<close> can size and \<^verbatim>\<open>open\<close> refuses (for example mode 000).\<close>

definition unreadable_file :: "string \<Rightarrow> string \<Rightarrow> int \<Rightarrow> item" where
  "unreadable_file p sfx sz =
     \<lparr>item_str = p, suffix_lower = sfx, is_file = Inr True, is_dir = Inr False,
      st_size = Inr sz, data = Inl PermissionError\<rparr>"

text \<open>
  A symlink whose target is missing: \<^verbatim>\<open>is_file()\<close> and \<^verbatim>\<open>is_dir()\<close> are both false, and
  \<^verbatim>\<open>stat\<close> and \<^verbatim>\<open>open\<close> fail.
\<close>

definition dangling_symlink :: "string \<Rightarrow> item" where
  "dangling_symlink p =
     \<lparr>item_str = p, suffix_lower = [], is_file = Inr False, is_dir = Inr False,
      st_size = Inl OSError, data = Inl OSError\<rparr>"

text \<open>A directory.\<close>

definition subdirectory :: "string \<Rightarrow> item" where
  "subdirectory p =
     \<lparr>item_str = p, suffix_lower = [], is_file = Inr False, is_dir = Inr True,
      st_size = Inr 4096, data = Inl OSError\<rparr>"

text \<open>A regular file that disappears after \<^verbatim>\<open>is_file()\<close> has answered: \<^verbatim>\<open>stat\<close> fails.\<close>

definition vanished_file :: "string \<Rightarrow> string \<Rightarrow> item" where
  "vanished_file p sfx =
     \<lparr>item_str = p, suffix_lower = sfx, is_file = Inr True, is_dir = Inr False,
      st_size = Inl OSError, data = Inl OSError\<rparr>"

section \<open>Facts about the containers and the hash\<close>

lemma read_chunks_all: "0 < n \<Longrightarrow> read_chunks n bs h = h @ bs"
proof (induction n bs h rule: read_chunks.induct)
  case (1 block_size remaining hasher)
  show ?case
  proof (cases "take block_size remaining = []")
    case True
    with "1.prems" have "remaining = []" by simp
    with True show ?thesis by (simp add: read_chunks.simps)
  next
    case False
    with "1.IH" [OF refl False] "1.prems"
    have "read_chunks block_size (drop block_size remaining) (hasher @ take block_size remaining)
            = (hasher @ take block_size remaining) @ drop block_size remaining"
      by simp
    with False show ?thesis
      by (subst read_chunks.simps) (simp add: Let_def)
  qed
qed

lemma calculate_file_hash_default:
  "calculate_file_hash H it 65536 = (case data it of Inl e \<Rightarrow> None | Inr bs \<Rightarrow> Some (H bs))"
  by (simp add: calculate_file_hash_def read_chunks_all split: sum.splits)

lemma map_of_dd_append:
  "map_of (dd_append k v d) = (map_of d)(k \<mapsto> bucket d k @ [v])"
  by (induction d) (auto simp: bucket_def fun_eq_iff)

lemma bucket_dd_append:
  "bucket (dd_append k v d) k' = (if k' = k then bucket d k @ [v] else bucket d k')"
  by (simp add: bucket_def map_of_dd_append)

lemma keys_dd_append: "fst ` set (dd_append k v d) = insert k (fst ` set d)"
  by (simp add: dom_map_of_conv_image_fst [symmetric] map_of_dd_append)

lemma distinct_dd_append:
  "distinct (map fst (dd_append k v d)) = distinct (map fst d)"
proof (induction d)
  case Nil
  show ?case by simp
next
  case (Cons p d)
  obtain k' vs where p: "p = (k', vs)" by (cases p)
  have "set (map fst (dd_append k v d)) = insert k (set (map fst d))"
    using keys_dd_append [of k v d] by simp
  with Cons p show ?case by auto
qed

section \<open>One iteration and the whole loop\<close>

lemma item_classes:
  "stat_succeeded it \<or> stat_failed it \<or> directory it \<or> neither it \<or> probe_raises it"
  by (auto simp: stat_succeeded_def stat_failed_def directory_def neither_def probe_raises_def
      split: sum.splits bool.splits)

lemma process_item_stat_succeeded:
  assumes "stat_succeeded it"
  shows "\<exists>s'. process_item H fd it s = Inr s' \<and>
           total_size s' = total_size s + stat_size it \<and>
           stats (self s') = count_item it (stats (self s)) \<and>
           file_types (self s') = add_entry it (file_types (self s)) \<and>
           duplicates (self s') = add_duplicate H fd it (duplicates (self s)) \<and>
           root_path (self s') = root_path (self s)"
  using assms
  by (auto simp: process_item_def try_body_def Let_def stat_succeeded_def stat_size_def
      count_item_def add_entry_def add_duplicate_def hashed_def digest_of_def entry_of_def
      split: sum.splits option.splits)

lemma process_item_stat_failed:
  assumes "stat_failed it"
  shows "process_item H fd it s =
           Inr (s\<lparr>self := (self s)\<lparr>stats := dd_incr (stats (self s)) ''errors''\<rparr>\<rparr>)"
  using assms
  by (auto simp: process_item_def try_body_def stat_failed_def split: sum.splits)

lemma process_item_directory:
  assumes "directory it"
  shows "process_item H fd it s =
           Inr (s\<lparr>self := (self s)\<lparr>stats := dd_incr (stats (self s)) ''total_dirs''\<rparr>\<rparr>)"
  using assms by (simp add: process_item_def directory_def)

lemma process_item_neither:
  assumes "neither it"
  shows "process_item H fd it s = Inr s"
  using assms by (simp add: process_item_def neither_def)

lemma process_item_raises:
  assumes "probe_raises it"
  shows "\<exists>e. process_item H fd it s = Inl e"
  using assms
  by (auto simp: process_item_def probe_raises_def split: sum.splits bool.splits)

lemma process_item_effect:
  assumes "\<not> probe_raises it"
  shows "\<exists>s'. process_item H fd it s = Inr s' \<and>
           total_size s' = total_size s + (if stat_succeeded it then stat_size it else 0) \<and>
           stats (self s') = count_item it (stats (self s)) \<and>
           file_types (self s') = add_entry it (file_types (self s)) \<and>
           duplicates (self s') = add_duplicate H fd it (duplicates (self s)) \<and>
           root_path (self s') = root_path (self s)"
proof -
  consider "stat_succeeded it" | "stat_failed it" | "directory it" | "neither it"
    using item_classes [of it] assms by blast
  then show ?thesis
  proof cases
    case 1
    with process_item_stat_succeeded [OF 1, of H fd s] show ?thesis by simp
  next
    case 2
    then have "\<not> stat_succeeded it"
      by (auto simp: stat_succeeded_def stat_failed_def split: sum.splits)
    with 2 show ?thesis
      by (simp add: process_item_stat_failed count_item_def add_entry_def add_duplicate_def hashed_def)
  next
    case 3
    then have "\<not> stat_succeeded it" "\<not> stat_failed it"
      by (auto simp: stat_succeeded_def stat_failed_def directory_def)
    with 3 show ?thesis
      by (simp add: process_item_directory count_item_def add_entry_def add_duplicate_def hashed_def)
  next
    case 4
    then have "\<not> stat_succeeded it" "\<not> stat_failed it" "\<not> directory it"
      by (auto simp: stat_succeeded_def stat_failed_def directory_def neither_def)
    with 4 show ?thesis
      by (simp add: process_item_neither count_item_def add_entry_def add_duplicate_def hashed_def)
  qed
qed

lemma for_items_effect:
  assumes "\<forall>it\<in>set its. \<not> probe_raises it"
  shows "\<exists>s'. for_items H fd its s = Inr s' \<and>
           total_size s' = total_size s + sum_list (map stat_size (filter stat_succeeded its)) \<and>
           stats (self s') = fold count_item its (stats (self s)) \<and>
           file_types (self s') = fold add_entry its (file_types (self s)) \<and>
           duplicates (self s') = fold (add_duplicate H fd) its (duplicates (self s)) \<and>
           root_path (self s') = root_path (self s)"
  using assms
proof (induction its arbitrary: s)
  case Nil
  show ?case by simp
next
  case (Cons it its)
  from Cons.prems have ok: "\<not> probe_raises it" and rest: "\<forall>x\<in>set its. \<not> probe_raises x"
    by simp_all
  from process_item_effect [OF ok, of H fd s] obtain s1 where
    s1: "process_item H fd it s = Inr s1"
      "total_size s1 = total_size s + (if stat_succeeded it then stat_size it else 0)"
      "stats (self s1) = count_item it (stats (self s))"
      "file_types (self s1) = add_entry it (file_types (self s))"
      "duplicates (self s1) = add_duplicate H fd it (duplicates (self s))"
      "root_path (self s1) = root_path (self s)"
    by blast
  from Cons.IH [OF rest, of s1] obtain s' where
    s': "for_items H fd its s1 = Inr s'"
      "total_size s' = total_size s1 + sum_list (map stat_size (filter stat_succeeded its))"
      "stats (self s') = fold count_item its (stats (self s1))"
      "file_types (self s') = fold add_entry its (file_types (self s1))"
      "duplicates (self s') = fold (add_duplicate H fd) its (duplicates (self s1))"
      "root_path (self s') = root_path (self s1)"
    by blast
  from s1 s' show ?case by simp
qed

lemma for_items_raises:
  assumes "\<exists>it\<in>set its. probe_raises it"
  shows "\<exists>e. for_items H fd its s = Inl e"
  using assms
proof (induction its arbitrary: s)
  case Nil
  then show ?case by simp
next
  case (Cons it its)
  show ?case
  proof (cases "probe_raises it")
    case True
    from process_item_raises [OF True, of H fd s] show ?thesis by auto
  next
    case False
    with Cons.prems have rest: "\<exists>x\<in>set its. probe_raises x" by simp
    from process_item_effect [OF False, of H fd s] obtain s1 where
      "process_item H fd it s = Inr s1" by blast
    with Cons.IH [OF rest, of s1] show ?thesis by simp
  qed
qed

section \<open>The whole method\<close>

lemma dd_get_touch: "dd_get (dd_touch d k) k' = dd_get d k'"
  by (simp add: dd_get_def dd_touch_def split: option.splits)

lemma dd_get_upd: "dd_get (d(k \<mapsto> v)) k' = (if k' = k then v else dd_get d k')"
  by (simp add: dd_get_def)

lemma dd_get_add: "dd_get (dd_add d k n) k' = (if k' = k then dd_get d k + int n else dd_get d k')"
  by (simp add: dd_get_def dd_add_def)

lemma dd_incr_add: "dd_incr d k = dd_add d k 1"
  by (simp add: dd_incr_def dd_add_def)

lemma dd_add_add: "dd_add (dd_add d k m) k n = dd_add d k (m + n)"
  by (auto simp: dd_add_def dd_get_def)

lemma dd_add_commute: "k \<noteq> k' \<Longrightarrow> dd_add (dd_add d k m) k' n = dd_add (dd_add d k' n) k m"
  by (auto simp: dd_add_def dd_get_def fun_eq_iff)

lemma classes_exclusive:
  "stat_succeeded it \<Longrightarrow> \<not> stat_failed it \<and> \<not> directory it \<and> \<not> neither it"
  "stat_failed it \<Longrightarrow> \<not> directory it \<and> \<not> neither it"
  "directory it \<Longrightarrow> \<not> neither it"
  by (auto simp: stat_succeeded_def stat_failed_def directory_def neither_def split: sum.splits)

lemma fold_count_item: "fold count_item its d = tally its d"
proof (induction its arbitrary: d)
  case Nil
  show ?case by (simp add: tally_def dd_add_def)
next
  case (Cons it its)
  have "tally its (count_item it d) = tally (it # its) d"
  proof -
    consider "stat_succeeded it" | "\<not> stat_succeeded it" "stat_failed it"
      | "\<not> stat_succeeded it" "\<not> stat_failed it" "directory it"
      | "\<not> stat_succeeded it" "\<not> stat_failed it" "\<not> directory it"
      by blast
    then show ?thesis
    proof cases
      case 1
      with classes_exclusive(1) [OF 1] show ?thesis
        by (simp add: tally_def count_item_def dd_incr_add dd_add_add)
    next
      case 2
      have "dd_add (dd_add d ''errors'' m) ''total_files'' n = dd_add (dd_add d ''total_files'' n) ''errors'' m" for n m
        by (rule dd_add_commute) simp
      with 2 classes_exclusive(2) [OF 2(2)] show ?thesis
        by (simp add: tally_def count_item_def dd_incr_add dd_add_add)
    next
      case 3
      have a: "dd_add (dd_add d ''total_dirs'' m) ''total_files'' n = dd_add (dd_add d ''total_files'' n) ''total_dirs'' m" for n m d
        by (rule dd_add_commute) simp
      have b: "dd_add (dd_add d ''total_dirs'' m) ''errors'' n = dd_add (dd_add d ''errors'' n) ''total_dirs'' m" for n m d
        by (rule dd_add_commute) simp
      from 3 show ?thesis
        by (simp add: tally_def count_item_def dd_incr_add dd_add_add a b)
    next
      case 4
      then show ?thesis by (simp add: tally_def count_item_def)
    qed
  qed
  with Cons.IH [of "count_item it d"] show ?case by simp
qed

lemma bucket_fold_add_entry:
  "bucket (fold add_entry its ft) e =
     bucket ft e @ map entry_of (filter (\<lambda>it. stat_succeeded it \<and> extension_of it = e) its)"
  by (induction its arbitrary: ft) (auto simp: add_entry_def bucket_dd_append)

lemma bucket_fold_add_duplicate:
  "bucket (fold (add_duplicate H fd) its d) h =
     bucket d h @ (if fd then map item_str (filter (\<lambda>it. hashed H it \<and> digest_of H it = h) its) else [])"
  by (induction its arbitrary: d) (auto simp: add_duplicate_def bucket_dd_append)

lemma distinct_fold_add_duplicate:
  "distinct (map fst (fold (add_duplicate H fd) its d)) = distinct (map fst d)"
  by (induction its arbitrary: d) (simp_all add: add_duplicate_def distinct_dd_append)

lemma distinct_fold_add_entry:
  "distinct (map fst (fold add_entry its ft)) = distinct (map fst ft)"
  by (induction its arbitrary: ft) (simp_all add: add_entry_def distinct_dd_append)

lemma entries_total_dd_append: "entries_total (dd_append k e ft) = entries_total ft + entry_size e"
  by (induction ft) (auto simp: entries_total_def)

lemma entries_total_fold:
  "entries_total (fold add_entry its ft) =
     entries_total ft + sum_list (map stat_size (filter stat_succeeded its))"
  by (induction its arbitrary: ft) (auto simp: add_entry_def entries_total_dd_append entry_of_def)

lemma bucket_of_member:
  assumes "distinct (map fst d)" and "(k, vs) \<in> set d"
  shows "bucket d k = vs"
  using assms by (simp add: bucket_def)

lemma fold_add_duplicate_member:
  assumes "(h, ps) \<in> set (fold (add_duplicate H True) its [])"
  shows "ps = map item_str (filter (\<lambda>it. hashed H it \<and> digest_of H it = h) its)"
proof -
  have "distinct (map fst (fold (add_duplicate H True) its []))"
    by (simp add: distinct_fold_add_duplicate)
  from bucket_of_member [OF this assms] show ?thesis
    unfolding bucket_fold_add_duplicate by (simp add: bucket_def)
qed

lemma analyze_directory_effect:
  assumes "\<forall>it\<in>set (rglob fs (root_path a)). \<not> probe_raises it"
  shows "\<exists>a'. analyze_directory H fs fd a = Inr a' \<and>
           stats a' = dd_touch (dd_touch (dd_touch
              ((tally (rglob fs (root_path a)) (stats a))(''total_size'' \<mapsto>
                  sum_list (map stat_size (filter stat_succeeded (rglob fs (root_path a))))))
              ''total_files'') ''total_dirs'') ''total_size'' \<and>
           file_types a' = fold add_entry (rglob fs (root_path a)) (file_types a) \<and>
           duplicates a' = fold (add_duplicate H fd) (rglob fs (root_path a)) (duplicates a) \<and>
           root_path a' = root_path a"
proof -
  let ?s = "\<lparr>self = a, total_size = 0, file_hashes = Map.empty\<rparr>"
  from for_items_effect [OF assms, of H fd ?s] obtain s' where
    "for_items H fd (rglob fs (root_path a)) ?s = Inr s'"
    "total_size s' = sum_list (map stat_size (filter stat_succeeded (rglob fs (root_path a))))"
    "stats (self s') = fold count_item (rglob fs (root_path a)) (stats a)"
    "file_types (self s') = fold add_entry (rglob fs (root_path a)) (file_types a)"
    "duplicates (self s') = fold (add_duplicate H fd) (rglob fs (root_path a)) (duplicates a)"
    "root_path (self s') = root_path a"
    by auto
  then show ?thesis
    by (simp add: analyze_directory_def print_report_def fold_count_item)
qed

lemma analyze_directory_raises:
  assumes "\<exists>it\<in>set (rglob fs (root_path a)). probe_raises it"
  shows "\<exists>e. analyze_directory H fs fd a = Inl e"
  using for_items_raises [OF assms, of H fd "\<lparr>self = a, total_size = 0, file_hashes = Map.empty\<rparr>"]
  by (auto simp: analyze_directory_def)

lemma analyze_directory_returns:
  assumes "analyze_directory H fs fd a = Inr a'"
  shows "\<forall>it\<in>set (rglob fs (root_path a)). \<not> probe_raises it"
  using assms analyze_directory_raises [of fs a H fd] by auto

section \<open>Auxiliary facts for the claims\<close>

lemma regular_file_simps:
  "stat_succeeded (regular_file p sfx bs)"
  "\<not> stat_failed (regular_file p sfx bs)"
  "\<not> directory (regular_file p sfx bs)"
  "\<not> neither (regular_file p sfx bs)"
  "\<not> probe_raises (regular_file p sfx bs)"
  "stat_size (regular_file p sfx bs) = int (length bs)"
  "item_str (regular_file p sfx bs) = p"
  "digest_of H (regular_file p sfx bs) = H bs"
  "hashed H (regular_file p sfx bs) = (H bs \<noteq> [])"
  "extension_of (regular_file p sfx bs) = (if sfx = [] then ''no_extension'' else sfx)"
  by (simp_all add: regular_file_def stat_succeeded_def stat_failed_def directory_def neither_def
      probe_raises_def stat_size_def digest_of_def hashed_def calculate_file_hash_default
      extension_of_def)

lemma fresh_fields:
  "root_path (FileSystemAnalyzer root) = root"
  "stats (FileSystemAnalyzer root) = Map.empty"
  "duplicates (FileSystemAnalyzer root) = []"
  "file_types (FileSystemAnalyzer root) = []"
  by (simp_all add: FileSystemAnalyzer_def)

lemma bucket_Nil: "bucket [] k = []"
  by (simp add: bucket_def)

lemma entries_total_Nil: "entries_total [] = 0"
  by (simp add: entries_total_def)

lemma not_hashed_without_digest:
  assumes "calculate_file_hash H it 65536 = None"
  shows "\<not> hashed H it"
  using assms by (simp add: hashed_def digest_of_def)

lemma stat_succeededI:
  assumes "is_file it = Inr True" and "st_size it = Inr sz"
  shows "stat_succeeded it" and "stat_size it = sz" and "\<not> probe_raises it"
  using assms by (simp_all add: stat_succeeded_def stat_size_def probe_raises_def)

lemma stats_reads:
  assumes "stats a' = dd_touch (dd_touch (dd_touch ((tally its d)(''total_size'' \<mapsto> n))
              ''total_files'') ''total_dirs'') ''total_size''"
  shows "dd_get (stats a') ''total_size'' = n"
    and "dd_get (stats a') ''total_files'' = dd_get d ''total_files'' + int (length (filter stat_succeeded its))"
    and "dd_get (stats a') ''errors'' = dd_get d ''errors'' + int (length (filter stat_failed its))"
    and "dd_get (stats a') ''total_dirs'' = dd_get d ''total_dirs'' + int (length (filter directory its))"
  unfolding assms by (simp_all add: dd_get_touch dd_get_upd dd_get_add tally_def)

lemma one_class:
  assumes "\<not> probe_raises it"
  shows "(of_bool (stat_succeeded it) + of_bool (stat_failed it) + of_bool (directory it) :: nat) =
           of_bool (\<not> neither it)"
  using assms
  by (auto simp: stat_succeeded_def stat_failed_def directory_def neither_def probe_raises_def
      split: sum.splits bool.splits)

lemma class_counts:
  assumes "\<forall>it\<in>set its. \<not> probe_raises it"
  shows "length (filter stat_succeeded its) + length (filter stat_failed its) +
           length (filter directory its) = length (filter (\<lambda>it. \<not> neither it) its)"
  using assms
proof (induction its)
  case Nil
  show ?case by simp
next
  case (Cons it its)
  then have ok: "\<not> probe_raises it" and rest: "\<forall>x\<in>set its. \<not> probe_raises x"
    by simp_all
  have step: "length (filter P (it # its)) = of_bool (P it) + length (filter P its)"
    for P :: "item \<Rightarrow> bool"
    by simp
  from one_class [OF ok] Cons.IH [OF rest] show ?case
    unfolding step by linarith
qed

lemma dangling_symlink_simps:
  "neither (dangling_symlink p)"
  "\<not> probe_raises (dangling_symlink p)"
  "\<not> stat_succeeded (dangling_symlink p)"
  "\<not> stat_failed (dangling_symlink p)"
  "\<not> directory (dangling_symlink p)"
  by (simp_all add: dangling_symlink_def neither_def probe_raises_def stat_succeeded_def
      stat_failed_def directory_def)

lemma dd_get_empty: "dd_get Map.empty k = 0"
  by (simp add: dd_get_def)

lemma fresh_stats_reads:
  assumes "analyze_directory H fs fd (FileSystemAnalyzer root) = Inr a'"
  shows "dd_get (stats a') ''total_size'' = sum_list (map stat_size (filter stat_succeeded (rglob fs root)))"
    and "dd_get (stats a') ''total_files'' = int (length (filter stat_succeeded (rglob fs root)))"
    and "dd_get (stats a') ''errors'' = int (length (filter stat_failed (rglob fs root)))"
    and "dd_get (stats a') ''total_dirs'' = int (length (filter directory (rglob fs root)))"
proof -
  from analyze_directory_returns [OF assms]
  have ok: "\<forall>it\<in>set (rglob fs (root_path (FileSystemAnalyzer root))). \<not> probe_raises it" .
  from analyze_directory_effect [OF ok, of H fd] assms
  have st: "stats a' = dd_touch (dd_touch (dd_touch
              ((tally (rglob fs root) Map.empty)(''total_size'' \<mapsto>
                  sum_list (map stat_size (filter stat_succeeded (rglob fs root)))))
              ''total_files'') ''total_dirs'') ''total_size''"
    by (auto simp: fresh_fields)
  from stats_reads [OF st]
  show "dd_get (stats a') ''total_size'' = sum_list (map stat_size (filter stat_succeeded (rglob fs root)))"
    and "dd_get (stats a') ''total_files'' = int (length (filter stat_succeeded (rglob fs root)))"
    and "dd_get (stats a') ''errors'' = int (length (filter stat_failed (rglob fs root)))"
    and "dd_get (stats a') ''total_dirs'' = int (length (filter directory (rglob fs root)))"
    by (simp_all add: dd_get_empty)
qed

lemma subdirectory_simps:
  "directory (subdirectory p)"
  "\<not> neither (subdirectory p)"
  "\<not> probe_raises (subdirectory p)"
  "\<not> stat_succeeded (subdirectory p)"
  "\<not> stat_failed (subdirectory p)"
  by (simp_all add: subdirectory_def neither_def probe_raises_def stat_succeeded_def
      stat_failed_def directory_def)

lemma vanished_file_simps:
  "stat_failed (vanished_file p sfx)"
  "\<not> neither (vanished_file p sfx)"
  "\<not> probe_raises (vanished_file p sfx)"
  "\<not> stat_succeeded (vanished_file p sfx)"
  "\<not> directory (vanished_file p sfx)"
  by (simp_all add: vanished_file_def neither_def probe_raises_def stat_succeeded_def
      stat_failed_def directory_def)

lemma scenario_ok:
  "\<forall>it\<in>set (rglob scenario_fs root). \<not> probe_raises it"
  by (simp add: rglob_def scenario_fs_def regular_file_simps)

lemma scenario_counts:
  "length (filter stat_succeeded (rglob scenario_fs root)) = 3"
  "length (filter stat_failed (rglob scenario_fs root)) = 0"
  "length (filter directory (rglob scenario_fs root)) = 0"
  "sum_list (map stat_size (filter stat_succeeded (rglob scenario_fs root))) = 3"
  by (simp_all add: rglob_def scenario_fs_def regular_file_simps)

lemma length_filter_mset:
  assumes "mset xs = mset ys"
  shows "length (filter P xs) = length (filter P ys)"
  by (metis assms mset_filter size_mset)

lemma mset_map_filter_mset:
  assumes "mset xs = mset ys"
  shows "mset (map f (filter P xs)) = mset (map f (filter P ys))"
  using assms by simp

lemma sum_list_map_filter_mset:
  fixes f :: "'a \<Rightarrow> int"
  assumes "mset xs = mset ys"
  shows "sum_list (map f (filter P xs)) = sum_list (map f (filter P ys))"
  by (metis mset_map_filter_mset [OF assms] sum_mset_sum_list)

lemma tally_mset:
  assumes "mset xs = mset ys"
  shows "tally xs d = tally ys d"
  by (simp add: tally_def length_filter_mset [OF assms])

lemma dd_touch_thrice_idem:
  "dd_touch (dd_touch (dd_touch (dd_touch (dd_touch (dd_touch d a) b) c) a) b) c =
     dd_touch (dd_touch (dd_touch d a) b) c"
  by (auto simp: dd_touch_def fun_eq_iff split: option.splits)

lemma print_report_idem: "print_report (print_report a) = print_report a"
  by (simp add: print_report_def dd_touch_thrice_idem)

lemma print_report_after_analyze:
  assumes "analyze_directory H fs fd a = Inr a'"
  shows "print_report a' = a'"
  using assms by (auto simp: analyze_directory_def print_report_idem split: sum.splits)

lemma stats_total_size:
  assumes "stats a' = dd_touch (dd_touch (dd_touch ((tally its d)(''total_size'' \<mapsto> n))
              ''total_files'') ''total_dirs'') ''total_size''"
  shows "stats a' ''total_size'' = Some n"
  unfolding assms by (simp add: dd_touch_def split: option.splits)

section \<open>The claims\<close>

subsection \<open>C1\<close>

text \<open>
  C1. The code at a tree with a single file: the file shares its digest with no other
  file, and the duplicates mapping ends with a bucket for it, of one member.
\<close>

theorem unique_file_gets_a_bucket:
  assumes "H bs \<noteq> []"
  shows "\<exists>a'. analyze_directory H (fs(root := \<lparr>root_is_dir = True, listing = [regular_file p sfx bs]\<rparr>))
                True (FileSystemAnalyzer root) = Inr a' \<and>
              duplicates a' = [(H bs, [p])]"
proof -
  let ?fs = "fs(root := \<lparr>root_is_dir = True, listing = [regular_file p sfx bs]\<rparr>)"
  have "\<forall>it\<in>set (rglob ?fs (root_path (FileSystemAnalyzer root))). \<not> probe_raises it"
    by (simp add: rglob_def fresh_fields regular_file_simps)
  from analyze_directory_effect [OF this, of H True] obtain a' where
    "analyze_directory H ?fs True (FileSystemAnalyzer root) = Inr a'"
    "duplicates a' = fold (add_duplicate H True) (rglob ?fs root) []"
    by (auto simp: fresh_fields)
  with assms show ?thesis
    by (intro exI [of _ a']) (simp add: rglob_def add_duplicate_def regular_file_simps)
qed

theorem unique_file_gets_a_bucket_witness:
  "\<exists>a'. analyze_directory (\<lambda>bs. CHR ''#'' # bs)
          ((\<lambda>r. \<lparr>root_is_dir = False, listing = []\<rparr>)
             (''.'' := \<lparr>root_is_dir = True, listing = [regular_file ''c.txt'' ''.txt'' ''Y'']\<rparr>))
          True (FileSystemAnalyzer ''.'') = Inr a' \<and>
        duplicates a' = [(''#Y'', [''c.txt''])]"
  using unique_file_gets_a_bucket [of "\<lambda>bs. CHR ''#'' # bs" "''Y''"
      "\<lambda>r. \<lparr>root_is_dir = False, listing = []\<rparr>" "''.''" "''c.txt''" "''.txt''"]
  by simp

subsection \<open>C2\<close>

text \<open>
  C2. The code at the tree of the scenario: the extension bucket of \<^verbatim>\<open>.txt\<close> has three
  entries and the total size is 3, and the duplicates mapping has two buckets, one with
  \<^verbatim>\<open>a.txt\<close> and \<^verbatim>\<open>b.txt\<close> and one with \<^verbatim>\<open>c.txt\<close> alone.
\<close>

theorem scenario_report:
  assumes "H ''X'' \<noteq> []" and "H ''Y'' \<noteq> []" and "H ''X'' \<noteq> H ''Y''"
  shows "\<exists>a'. analyze_directory H scenario_fs True (FileSystemAnalyzer ''.'') = Inr a' \<and>
              duplicates a' = [(H ''X'', [''a.txt'', ''b.txt'']), (H ''Y'', [''c.txt''])] \<and>
              length (bucket (file_types a') ''.txt'') = 3 \<and>
              stats a' ''total_size'' = Some 3"
proof -
  from analyze_directory_effect [where a = "FileSystemAnalyzer ''.''" and H = H and fd = True,
      OF scenario_ok]
  obtain a' where a': "analyze_directory H scenario_fs True (FileSystemAnalyzer ''.'') = Inr a'"
    and st: "stats a' = dd_touch (dd_touch (dd_touch
              ((tally (rglob scenario_fs ''.'') Map.empty)(''total_size'' \<mapsto>
                  sum_list (map stat_size (filter stat_succeeded (rglob scenario_fs ''.'')))))
              ''total_files'') ''total_dirs'') ''total_size''"
    and ft: "file_types a' = fold add_entry (rglob scenario_fs ''.'') []"
    and du: "duplicates a' = fold (add_duplicate H True) (rglob scenario_fs ''.'') []"
    by (auto simp: fresh_fields)
  have d: "duplicates a' = [(H ''X'', [''a.txt'', ''b.txt'']), (H ''Y'', [''c.txt''])]"
    unfolding du using assms
    by (simp add: rglob_def scenario_fs_def add_duplicate_def regular_file_simps)
  have e: "length (bucket (file_types a') ''.txt'') = 3"
    unfolding ft bucket_fold_add_entry
    by (simp add: bucket_Nil rglob_def scenario_fs_def regular_file_simps)
  from stats_total_size [OF st] have "stats a' ''total_size'' = Some 3"
    by (simp add: scenario_counts)
  with a' d e show ?thesis by blast
qed

theorem scenario_report_witness:
  "\<exists>a'. analyze_directory (\<lambda>bs. CHR ''#'' # bs) scenario_fs True (FileSystemAnalyzer ''.'') = Inr a' \<and>
        duplicates a' = [(''#X'', [''a.txt'', ''b.txt'']), (''#Y'', [''c.txt''])] \<and>
        length (bucket (file_types a') ''.txt'') = 3 \<and>
        stats a' ''total_size'' = Some 3"
  using scenario_report [of "\<lambda>bs. CHR ''#'' # bs"] by simp

subsection \<open>C3\<close>

text \<open>
  C3, as the claim states it, fails in both of its parts. After a second scan of the tree
  of the scenario through the same analyzer the total size is 3 while the sizes of the
  entries of the extension buckets sum to 6. And the loop adds the size of every file that
  \<^verbatim>\<open>stat\<close> can size, whether or not its content can be read: for a tree that holds one
  file of 7 bytes that the caller cannot read the total size is 7, while the sizes of the
  readable files sum to 0.
\<close>

theorem total_size_is_neither_sum:
  "(\<exists>a1 a2.
      analyze_directory (\<lambda>bs. CHR ''#'' # bs) scenario_fs False (FileSystemAnalyzer ''.'') = Inr a1 \<and>
      analyze_directory (\<lambda>bs. CHR ''#'' # bs) scenario_fs False a1 = Inr a2 \<and>
      stats a2 ''total_size'' = Some 3 \<and> entries_total (file_types a2) = 6) \<and>
   (\<exists>a'.
      analyze_directory (\<lambda>bs. CHR ''#'' # bs)
        (\<lambda>r. \<lparr>root_is_dir = True, listing = [unreadable_file ''s.bin'' ''.bin'' 7]\<rparr>)
        False (FileSystemAnalyzer ''.'') = Inr a' \<and>
      stats a' ''total_size'' = Some 7 \<and>
      sum_list (map stat_size (filter readable_file
        (rglob (\<lambda>r. \<lparr>root_is_dir = True, listing = [unreadable_file ''s.bin'' ''.bin'' 7]\<rparr>) ''.''))) = 0)"
proof -
  let ?H = "\<lambda>bs. CHR ''#'' # bs"
  from analyze_directory_effect [where a = "FileSystemAnalyzer ''.''" and H = ?H and fd = False,
      OF scenario_ok]
  obtain a1 where a1: "analyze_directory ?H scenario_fs False (FileSystemAnalyzer ''.'') = Inr a1"
    and ft1: "file_types a1 = fold add_entry (rglob scenario_fs ''.'') []"
    and rp1: "root_path a1 = ''.''"
    by (auto simp: fresh_fields)
  from analyze_directory_effect [where a = a1 and H = ?H and fd = False, OF scenario_ok]
  obtain a2 where a2: "analyze_directory ?H scenario_fs False a1 = Inr a2"
    and st2: "stats a2 = dd_touch (dd_touch (dd_touch
              ((tally (rglob scenario_fs ''.'') (stats a1))(''total_size'' \<mapsto>
                  sum_list (map stat_size (filter stat_succeeded (rglob scenario_fs ''.'')))))
              ''total_files'') ''total_dirs'') ''total_size''"
    and ft2: "file_types a2 = fold add_entry (rglob scenario_fs ''.'') (file_types a1)"
    by (auto simp: rp1)
  have t2: "stats a2 ''total_size'' = Some 3"
    using stats_total_size [OF st2] by (simp add: scenario_counts)
  have e2: "entries_total (file_types a2) = 6"
    unfolding ft2 ft1 by (simp add: entries_total_fold entries_total_Nil scenario_counts)
  let ?fs = "\<lambda>r :: string. \<lparr>root_is_dir = True, listing = [unreadable_file ''s.bin'' ''.bin'' 7]\<rparr>"
  have u: "stat_succeeded (unreadable_file p sfx sz)" "\<not> probe_raises (unreadable_file p sfx sz)"
    "stat_size (unreadable_file p sfx sz) = sz" "\<not> readable_file (unreadable_file p sfx sz)"
    for p sfx sz
    by (simp_all add: unreadable_file_def stat_succeeded_def probe_raises_def stat_size_def
        readable_file_def)
  have "\<forall>it\<in>set (rglob ?fs (root_path (FileSystemAnalyzer ''.''))). \<not> probe_raises it"
    by (simp add: rglob_def u)
  from analyze_directory_effect [OF this, of ?H False]
  obtain a' where a': "analyze_directory ?H ?fs False (FileSystemAnalyzer ''.'') = Inr a'"
    and st: "stats a' = dd_touch (dd_touch (dd_touch
              ((tally (rglob ?fs ''.'') Map.empty)(''total_size'' \<mapsto>
                  sum_list (map stat_size (filter stat_succeeded (rglob ?fs ''.'')))))
              ''total_files'') ''total_dirs'') ''total_size''"
    by (auto simp: fresh_fields)
  have t: "stats a' ''total_size'' = Some 7"
    using stats_total_size [OF st] by (simp add: rglob_def u)
  have r: "sum_list (map stat_size (filter readable_file (rglob ?fs ''.''))) = 0"
    by (simp add: rglob_def u)
  from a1 a2 t2 e2 a' t r show ?thesis by blast
qed

text \<open>
  C3, amended. After analyze_directory completes, the reported total size is the sum of the
  sizes that stat reports for the visited files whose stat succeeds, whether or not their
  content can be read; the scan adds that amount to the sum of the sizes of all entries of
  all extension buckets, so that after a scan through a freshly constructed analyzer (its
  extension buckets empty) the total size is the sum of the sizes of all entries of all
  extension buckets.
\<close>

theorem total_size_is_sum_of_stat_sizes:
  assumes "analyze_directory H fs fd a = Inr a'"
  shows "stats a' ''total_size'' =
           Some (sum_list (map stat_size (filter stat_succeeded (rglob fs (root_path a))))) \<and>
         entries_total (file_types a') =
           entries_total (file_types a) +
           sum_list (map stat_size (filter stat_succeeded (rglob fs (root_path a)))) \<and>
         (file_types a = [] \<longrightarrow> stats a' ''total_size'' = Some (entries_total (file_types a')))"
proof -
  from analyze_directory_returns [OF assms]
  have ok: "\<forall>it\<in>set (rglob fs (root_path a)). \<not> probe_raises it" .
  from analyze_directory_effect [OF ok, of H fd] assms
  have st: "stats a' = dd_touch (dd_touch (dd_touch
              ((tally (rglob fs (root_path a)) (stats a))(''total_size'' \<mapsto>
                  sum_list (map stat_size (filter stat_succeeded (rglob fs (root_path a))))))
              ''total_files'') ''total_dirs'') ''total_size''"
    and ft: "file_types a' = fold add_entry (rglob fs (root_path a)) (file_types a)"
    by auto
  have t: "stats a' ''total_size'' =
          Some (sum_list (map stat_size (filter stat_succeeded (rglob fs (root_path a)))))"
    by (rule stats_total_size [OF st])
  have e: "entries_total (file_types a') =
          entries_total (file_types a) +
          sum_list (map stat_size (filter stat_succeeded (rglob fs (root_path a))))"
    unfolding ft by (rule entries_total_fold)
  from t e show ?thesis
    by (simp add: entries_total_Nil)
qed

theorem total_size_is_sum_of_stat_sizes_witness:
  "\<exists>a'. analyze_directory (\<lambda>bs. CHR ''#'' # bs)
          (\<lambda>r. \<lparr>root_is_dir = True, listing = [regular_file ''a.txt'' ''.txt'' ''X'',
             unreadable_file ''s.bin'' ''.bin'' 7]\<rparr>)
          False (FileSystemAnalyzer ''.'') = Inr a' \<and>
        stats a' ''total_size'' = Some 8 \<and> entries_total (file_types a') = 8"
proof -
  let ?H = "\<lambda>bs. CHR ''#'' # bs"
  let ?fs = "\<lambda>r :: string. \<lparr>root_is_dir = True, listing = [regular_file ''a.txt'' ''.txt'' ''X'',
             unreadable_file ''s.bin'' ''.bin'' 7]\<rparr>"
  have u: "stat_succeeded (unreadable_file p sfx sz)" "\<not> probe_raises (unreadable_file p sfx sz)"
    "stat_size (unreadable_file p sfx sz) = sz" for p sfx sz
    by (simp_all add: unreadable_file_def stat_succeeded_def probe_raises_def stat_size_def)
  have "\<forall>it\<in>set (rglob ?fs (root_path (FileSystemAnalyzer ''.''))). \<not> probe_raises it"
    by (simp add: rglob_def u regular_file_simps)
  from analyze_directory_effect [OF this, of ?H False] obtain a' where
    a': "analyze_directory ?H ?fs False (FileSystemAnalyzer ''.'') = Inr a'"
    by blast
  have "sum_list (map stat_size (filter stat_succeeded (rglob ?fs ''.''))) = 8"
    by (simp add: rglob_def u regular_file_simps)
  with total_size_is_sum_of_stat_sizes [OF a'] a' show ?thesis
    by (intro exI [of _ a']) (simp add: fresh_fields entries_total_Nil)
qed

subsection \<open>C4\<close>

text \<open>
  C4, as the claim states it, fails: a visited path that is neither a regular file nor a
  directory (here a symlink whose target is missing) adds to none of the three counters.
\<close>

theorem dangling_symlink_is_not_counted:
  "\<exists>a'. analyze_directory (\<lambda>bs. CHR ''#'' # bs)
          (\<lambda>r. \<lparr>root_is_dir = True, listing = [dangling_symlink ''link'']\<rparr>)
          False (FileSystemAnalyzer ''.'') = Inr a' \<and>
        dd_get (stats a') ''total_files'' + dd_get (stats a') ''total_dirs'' +
          dd_get (stats a') ''errors'' = 0 \<and>
        length (rglob (\<lambda>r. \<lparr>root_is_dir = True, listing = [dangling_symlink ''link'']\<rparr>) ''.'') = 1"
proof -
  let ?fs = "\<lambda>r :: string. \<lparr>root_is_dir = True, listing = [dangling_symlink ''link'']\<rparr>"
  have "\<forall>it\<in>set (rglob ?fs (root_path (FileSystemAnalyzer ''.''))). \<not> probe_raises it"
    by (simp add: rglob_def dangling_symlink_simps)
  from analyze_directory_effect [OF this, of "\<lambda>bs. CHR ''#'' # bs" False] obtain a' where
    a': "analyze_directory (\<lambda>bs. CHR ''#'' # bs) ?fs False (FileSystemAnalyzer ''.'') = Inr a'"
    by blast
  from fresh_stats_reads [OF a'] a' show ?thesis
    by (intro exI [of _ a']) (simp add: rglob_def dangling_symlink_simps)
qed

text \<open>
  C4, amended. After a scan through a freshly constructed analyzer, total_files is the
  number of visited files whose stat succeeded, errors the number of visited files whose stat failed,
  total_dirs the number of visited directories; every visited path that is a regular file
  or a directory is in exactly one of the three classes, and a path that is neither is in
  none. The sum of the three counters is the number of visited files and directories.
\<close>

theorem files_and_directories_counted_once:
  assumes "analyze_directory H fs fd (FileSystemAnalyzer root) = Inr a'"
  shows "dd_get (stats a') ''total_files'' = int (length (filter stat_succeeded (rglob fs root))) \<and>
         dd_get (stats a') ''errors'' = int (length (filter stat_failed (rglob fs root))) \<and>
         dd_get (stats a') ''total_dirs'' = int (length (filter directory (rglob fs root))) \<and>
         dd_get (stats a') ''total_files'' + dd_get (stats a') ''total_dirs'' +
           dd_get (stats a') ''errors'' =
           int (length (filter (\<lambda>it. \<not> neither it) (rglob fs root))) \<and>
         (\<forall>it\<in>set (rglob fs root).
            (of_bool (stat_succeeded it) + of_bool (stat_failed it) + of_bool (directory it) :: nat) =
              of_bool (\<not> neither it))"
proof -
  from analyze_directory_returns [OF assms]
  have ok: "\<forall>it\<in>set (rglob fs root). \<not> probe_raises it"
    by (simp add: fresh_fields)
  from class_counts [OF ok] fresh_stats_reads(2-4) [OF assms]
  have "dd_get (stats a') ''total_files'' + dd_get (stats a') ''total_dirs'' +
           dd_get (stats a') ''errors'' =
           int (length (filter (\<lambda>it. \<not> neither it) (rglob fs root)))"
    by simp
  with fresh_stats_reads(2-4) [OF assms] ok one_class show ?thesis
    by simp
qed

theorem files_and_directories_counted_once_witness:
  "\<exists>a'. analyze_directory (\<lambda>bs. CHR ''#'' # bs)
          (\<lambda>r. \<lparr>root_is_dir = True, listing = [subdirectory ''d'', regular_file ''d/a.txt'' ''.txt'' ''X'',
             dangling_symlink ''link'', vanished_file ''gone.txt'' ''.txt'',
             regular_file ''b.txt'' ''.txt'' ''X'']\<rparr>)
          True (FileSystemAnalyzer ''.'') = Inr a' \<and>
        dd_get (stats a') ''total_files'' = 2 \<and> dd_get (stats a') ''errors'' = 1 \<and>
        dd_get (stats a') ''total_dirs'' = 1 \<and>
        dd_get (stats a') ''total_files'' + dd_get (stats a') ''total_dirs'' +
          dd_get (stats a') ''errors'' = 4"
proof -
  let ?fs = "\<lambda>r :: string. \<lparr>root_is_dir = True, listing = [subdirectory ''d'',
             regular_file ''d/a.txt'' ''.txt'' ''X'',
             dangling_symlink ''link'', vanished_file ''gone.txt'' ''.txt'',
             regular_file ''b.txt'' ''.txt'' ''X'']\<rparr>"
  have "\<forall>it\<in>set (rglob ?fs (root_path (FileSystemAnalyzer ''.''))). \<not> probe_raises it"
    by (simp add: rglob_def dangling_symlink_simps regular_file_simps subdirectory_simps
        vanished_file_simps)
  from analyze_directory_effect [OF this, of "\<lambda>bs. CHR ''#'' # bs" True] obtain a' where
    a': "analyze_directory (\<lambda>bs. CHR ''#'' # bs) ?fs True (FileSystemAnalyzer ''.'') = Inr a'"
    by blast
  from files_and_directories_counted_once [OF a'] a' show ?thesis
    by (intro exI [of _ a'])
      (simp add: rglob_def dangling_symlink_simps regular_file_simps subdirectory_simps
        vanished_file_simps)
qed

subsection \<open>C5\<close>

text \<open>
  C5, as the claim states it, fails: a second scan of the unchanged tree through the same
  analyzer reports twice the files of the first, the same total size, and every path
  twice in its bucket.
\<close>

theorem second_scan_on_same_analyzer_differs:
  "\<exists>a1 a2. analyze_directory (\<lambda>bs. CHR ''#'' # bs) scenario_fs True (FileSystemAnalyzer ''.'') = Inr a1 \<and>
     analyze_directory (\<lambda>bs. CHR ''#'' # bs) scenario_fs True a1 = Inr a2 \<and>
     dd_get (stats a1) ''total_files'' = 3 \<and> dd_get (stats a2) ''total_files'' = 6 \<and>
     dd_get (stats a1) ''total_size'' = 3 \<and> dd_get (stats a2) ''total_size'' = 3 \<and>
     bucket (duplicates a1) ''#Y'' = [''c.txt''] \<and>
     bucket (duplicates a2) ''#Y'' = [''c.txt'', ''c.txt'']"
proof -
  let ?H = "\<lambda>bs. CHR ''#'' # bs"
  from analyze_directory_effect [where a = "FileSystemAnalyzer ''.''" and H = ?H and fd = True,
      OF scenario_ok]
  obtain a1 where a1: "analyze_directory ?H scenario_fs True (FileSystemAnalyzer ''.'') = Inr a1"
    and st1: "stats a1 = dd_touch (dd_touch (dd_touch
              ((tally (rglob scenario_fs ''.'') Map.empty)(''total_size'' \<mapsto>
                  sum_list (map stat_size (filter stat_succeeded (rglob scenario_fs ''.'')))))
              ''total_files'') ''total_dirs'') ''total_size''"
    and du1: "duplicates a1 = fold (add_duplicate ?H True) (rglob scenario_fs ''.'') []"
    and rp1: "root_path a1 = ''.''"
    by (auto simp: fresh_fields)
  from analyze_directory_effect [where a = a1 and H = ?H and fd = True, OF scenario_ok]
  obtain a2 where a2: "analyze_directory ?H scenario_fs True a1 = Inr a2"
    and st2: "stats a2 = dd_touch (dd_touch (dd_touch
              ((tally (rglob scenario_fs ''.'') (stats a1))(''total_size'' \<mapsto>
                  sum_list (map stat_size (filter stat_succeeded (rglob scenario_fs ''.'')))))
              ''total_files'') ''total_dirs'') ''total_size''"
    and du2: "duplicates a2 = fold (add_duplicate ?H True) (rglob scenario_fs ''.'') (duplicates a1)"
    by (auto simp: rp1)
  have b1: "bucket (duplicates a1) ''#Y'' = [''c.txt'']"
    unfolding du1 bucket_fold_add_duplicate
    by (simp add: bucket_Nil rglob_def scenario_fs_def regular_file_simps)
  have b2: "bucket (duplicates a2) ''#Y'' = [''c.txt'', ''c.txt'']"
    unfolding du2 bucket_fold_add_duplicate b1
    by (simp add: rglob_def scenario_fs_def regular_file_simps)
  have f1: "dd_get (stats a1) ''total_files'' = 3" "dd_get (stats a1) ''total_size'' = 3"
    using stats_reads(1,2) [OF st1] by (simp_all add: scenario_counts dd_get_empty)
  have f2: "dd_get (stats a2) ''total_files'' = 6" "dd_get (stats a2) ''total_size'' = 3"
    using stats_reads(1,2) [OF st2] f1 by (simp_all add: scenario_counts)
  from a1 a2 b1 b2 f1 f2 show ?thesis by blast
qed

text \<open>
  C5, amended. Two scans of an unchanged tree, each through a freshly constructed
  analyzer, return the same stats (counts, total size, error count) and, for every key, the
  same extension bucket and the same duplicates bucket up to the order of their elements,
  also when the two scans visit the tree in different orders; when they visit it in the
  same order the two analyzers end in the same state.
\<close>

theorem fresh_scans_agree:
  assumes "analyze_directory H fs fd (FileSystemAnalyzer root) = Inr a1"
      and "mset (rglob fs' root) = mset (rglob fs root)"
  shows "\<exists>a2. analyze_directory H fs' fd (FileSystemAnalyzer root) = Inr a2 \<and>
           stats a2 = stats a1 \<and>
           (\<forall>e. mset (bucket (file_types a2) e) = mset (bucket (file_types a1) e)) \<and>
           (\<forall>h. mset (bucket (duplicates a2) h) = mset (bucket (duplicates a1) h)) \<and>
           (rglob fs' root = rglob fs root \<longrightarrow> a2 = a1)"
proof -
  from analyze_directory_returns [OF assms(1)]
  have ok: "\<forall>it\<in>set (rglob fs (root_path (FileSystemAnalyzer root))). \<not> probe_raises it" .
  have "set (rglob fs' root) = set (rglob fs root)"
    using assms(2) by (rule mset_eq_setD)
  with ok have ok': "\<forall>it\<in>set (rglob fs' (root_path (FileSystemAnalyzer root))). \<not> probe_raises it"
    by (simp add: fresh_fields)
  from analyze_directory_effect [OF ok, of H fd] assms(1)
  have st1: "stats a1 = dd_touch (dd_touch (dd_touch
              ((tally (rglob fs root) Map.empty)(''total_size'' \<mapsto>
                  sum_list (map stat_size (filter stat_succeeded (rglob fs root)))))
              ''total_files'') ''total_dirs'') ''total_size''"
    and ft1: "file_types a1 = fold add_entry (rglob fs root) []"
    and du1: "duplicates a1 = fold (add_duplicate H fd) (rglob fs root) []"
    by (auto simp: fresh_fields)
  from analyze_directory_effect [OF ok', of H fd] obtain a2 where
    a2: "analyze_directory H fs' fd (FileSystemAnalyzer root) = Inr a2"
    and st2: "stats a2 = dd_touch (dd_touch (dd_touch
              ((tally (rglob fs' root) Map.empty)(''total_size'' \<mapsto>
                  sum_list (map stat_size (filter stat_succeeded (rglob fs' root)))))
              ''total_files'') ''total_dirs'') ''total_size''"
    and ft2: "file_types a2 = fold add_entry (rglob fs' root) []"
    and du2: "duplicates a2 = fold (add_duplicate H fd) (rglob fs' root) []"
    by (auto simp: fresh_fields)
  have s: "stats a2 = stats a1"
    unfolding st1 st2
    by (simp only: tally_mset [OF assms(2)] sum_list_map_filter_mset [OF assms(2)])
  have f: "mset (bucket (file_types a2) e) = mset (bucket (file_types a1) e)" for e
    unfolding ft1 ft2 bucket_fold_add_entry bucket_Nil
    by (simp add: assms(2))
  have d: "mset (bucket (duplicates a2) h) = mset (bucket (duplicates a1) h)" for h
    unfolding du1 du2 bucket_fold_add_duplicate bucket_Nil
    by (simp add: assms(2))
  have "a2 = a1" if "rglob fs' root = rglob fs root"
    using that a2 assms(1) by (simp add: analyze_directory_def fresh_fields)
  with a2 s f d show ?thesis by blast
qed

theorem fresh_scans_agree_witness:
  "\<exists>a1 a2. analyze_directory (\<lambda>bs. CHR ''#'' # bs) scenario_fs True (FileSystemAnalyzer ''.'') = Inr a1 \<and>
     analyze_directory (\<lambda>bs. CHR ''#'' # bs)
       (\<lambda>r. \<lparr>root_is_dir = True, listing = rev (listing (scenario_fs r))\<rparr>) True
       (FileSystemAnalyzer ''.'') = Inr a2 \<and>
     stats a2 = stats a1 \<and>
     mset (bucket (duplicates a2) ''#X'') = mset (bucket (duplicates a1) ''#X'') \<and>
     mset (bucket (file_types a2) ''.txt'') = mset (bucket (file_types a1) ''.txt'')"
proof -
  let ?H = "\<lambda>bs. CHR ''#'' # bs"
  let ?fs' = "\<lambda>r. \<lparr>root_is_dir = True, listing = rev (listing (scenario_fs r))\<rparr>"
  from analyze_directory_effect [where a = "FileSystemAnalyzer ''.''" and H = ?H and fd = True,
      OF scenario_ok]
  obtain a1 where a1: "analyze_directory ?H scenario_fs True (FileSystemAnalyzer ''.'') = Inr a1"
    by blast
  have "mset (rglob ?fs' ''.'') = mset (rglob scenario_fs ''.'')"
    by (simp add: rglob_def scenario_fs_def)
  from fresh_scans_agree [OF a1 this] a1 show ?thesis by blast
qed

subsection \<open>C6\<close>

text \<open>
  C6, as the claim states it, fails: the caller holds the object's own dict, and a second
  call through the same analyzer changes what the first call returned.
\<close>

theorem returned_report_changes_on_second_call:
  "\<exists>h1 r h2 r2 st1 st2.
     call_analyze_directory (\<lambda>bs. CHR ''#'' # bs) scenario_fs False 0
       [0 \<mapsto> FileSystemAnalyzer ''.''] = Some (Inr (h1, r)) \<and>
     call_analyze_directory (\<lambda>bs. CHR ''#'' # bs) scenario_fs False 0 h1 = Some (Inr (h2, r2)) \<and>
     read_report h1 r = Some st1 \<and> read_report h2 r = Some st2 \<and>
     dd_get st1 ''total_files'' = 3 \<and> dd_get st2 ''total_files'' = 6"
proof -
  let ?H = "\<lambda>bs. CHR ''#'' # bs"
  from analyze_directory_effect [where a = "FileSystemAnalyzer ''.''" and H = ?H and fd = False,
      OF scenario_ok]
  obtain a1 where a1: "analyze_directory ?H scenario_fs False (FileSystemAnalyzer ''.'') = Inr a1"
    and st1: "stats a1 = dd_touch (dd_touch (dd_touch
              ((tally (rglob scenario_fs ''.'') Map.empty)(''total_size'' \<mapsto>
                  sum_list (map stat_size (filter stat_succeeded (rglob scenario_fs ''.'')))))
              ''total_files'') ''total_dirs'') ''total_size''"
    and rp1: "root_path a1 = ''.''"
    by (auto simp: fresh_fields)
  from analyze_directory_effect [where a = a1 and H = ?H and fd = False, OF scenario_ok]
  obtain a2 where a2: "analyze_directory ?H scenario_fs False a1 = Inr a2"
    and st2: "stats a2 = dd_touch (dd_touch (dd_touch
              ((tally (rglob scenario_fs ''.'') (stats a1))(''total_size'' \<mapsto>
                  sum_list (map stat_size (filter stat_succeeded (rglob scenario_fs ''.'')))))
              ''total_files'') ''total_dirs'') ''total_size''"
    by (auto simp: rp1)
  have f1: "dd_get (stats a1) ''total_files'' = 3"
    using stats_reads(2) [OF st1] by (simp add: scenario_counts dd_get_empty)
  have f2: "dd_get (stats a2) ''total_files'' = 6"
    using stats_reads(2) [OF st2] f1 by (simp add: scenario_counts)
  let ?h0 = "[0 \<mapsto> FileSystemAnalyzer ''.''] :: store"
  have c1: "call_analyze_directory ?H scenario_fs False 0 ?h0 = Some (Inr (?h0(0 \<mapsto> a1), Stats_of 0))"
    by (simp add: call_analyze_directory_def a1)
  have c2: "call_analyze_directory ?H scenario_fs False 0 (?h0(0 \<mapsto> a1)) =
              Some (Inr (?h0(0 \<mapsto> a1, 0 \<mapsto> a2), Stats_of 0))"
    by (simp add: call_analyze_directory_def a2)
  have r1: "read_report (?h0(0 \<mapsto> a1)) (Stats_of 0) = Some (stats a1)"
    and r2: "read_report (?h0(0 \<mapsto> a1, 0 \<mapsto> a2)) (Stats_of 0) = Some (stats a2)"
    by (simp_all add: read_report_def)
  from c1 c2 r1 r2 f1 f2 show ?thesis by blast
qed

text \<open>
  C6, amended. The value analyze_directory returns is a reference to the analyzer's own
  stats dict, not a copy. Later calls of print_report on the same analyzer, and calls of
  analyze_directory or print_report on any other analyzer, leave what the caller reads
  through it unchanged; a later analyze_directory on the same analyzer updates it in
  place.
\<close>

theorem returned_report_is_the_analyzers_stats:
  assumes "call_analyze_directory H fs fd p h = Some (Inr (h1, r))"
  shows "r = Stats_of p \<and> read_report h1 r = map_option stats (h1 p) \<and>
         (\<forall>h2. call_print_report p h1 = Some h2 \<longrightarrow> read_report h2 r = read_report h1 r) \<and>
         (\<forall>q h2. q \<noteq> p \<and> call_print_report q h1 = Some h2 \<longrightarrow>
            read_report h2 r = read_report h1 r) \<and>
         (\<forall>q H' fs' fd' h2 r2.
            q \<noteq> p \<and> call_analyze_directory H' fs' fd' q h1 = Some (Inr (h2, r2)) \<longrightarrow>
            read_report h2 r = read_report h1 r) \<and>
         (\<forall>H' fs' fd' h2 r2.
            call_analyze_directory H' fs' fd' p h1 = Some (Inr (h2, r2)) \<longrightarrow>
            r2 = r \<and> read_report h2 r = map_option stats (h2 p))"
proof -
  from assms obtain a a' where
    a: "h p = Some a" and a': "analyze_directory H fs fd a = Inr a'"
    and h1: "h1 = h(p \<mapsto> a')" and r: "r = Stats_of p"
    by (auto simp: call_analyze_directory_def split: option.splits sum.splits)
  have 1: "read_report h1 r = map_option stats (h1 p)"
    by (simp add: read_report_def r)
  have 2: "read_report h2 r = read_report h1 r" if "call_print_report p h1 = Some h2" for h2
    using that print_report_after_analyze [OF a']
    by (auto simp: call_print_report_def read_report_def r h1)
  have 3: "read_report h2 r = read_report h1 r"
    if "q \<noteq> p \<and> call_print_report q h1 = Some h2" for q h2
    using that
    by (auto simp: call_print_report_def read_report_def r split: option.splits)
  have 4: "read_report h2 r = read_report h1 r"
    if "q \<noteq> p \<and> call_analyze_directory H' fs' fd' q h1 = Some (Inr (h2, r2))"
    for q H' fs' fd' h2 r2
    using that
    by (auto simp: call_analyze_directory_def read_report_def r split: option.splits sum.splits)
  have 5: "r2 = r \<and> read_report h2 r = map_option stats (h2 p)"
    if "call_analyze_directory H' fs' fd' p h1 = Some (Inr (h2, r2))" for H' fs' fd' h2 r2
    using that
    by (auto simp: call_analyze_directory_def read_report_def r split: option.splits sum.splits)
  from r 1 2 3 4 5 show ?thesis by blast
qed

theorem returned_report_is_the_analyzers_stats_witness:
  "\<exists>h1 r h2 r2.
     call_analyze_directory (\<lambda>bs. CHR ''#'' # bs) scenario_fs False 0
       [0 \<mapsto> FileSystemAnalyzer ''.'', 1 \<mapsto> FileSystemAnalyzer ''.''] = Some (Inr (h1, r)) \<and>
     call_analyze_directory (\<lambda>bs. CHR ''#'' # bs) scenario_fs True 1 h1 = Some (Inr (h2, r2)) \<and>
     r = Stats_of 0 \<and> r2 = Stats_of 1 \<and> read_report h2 r = read_report h1 r"
proof -
  let ?H = "\<lambda>bs. CHR ''#'' # bs"
  let ?h0 = "[0 \<mapsto> FileSystemAnalyzer ''.'', 1 \<mapsto> FileSystemAnalyzer ''.''] :: store"
  from analyze_directory_effect [where a = "FileSystemAnalyzer ''.''" and H = ?H and fd = False,
      OF scenario_ok]
  obtain a0 where a0: "analyze_directory ?H scenario_fs False (FileSystemAnalyzer ''.'') = Inr a0"
    by blast
  from analyze_directory_effect [where a = "FileSystemAnalyzer ''.''" and H = ?H and fd = True,
      OF scenario_ok]
  obtain a1 where a1: "analyze_directory ?H scenario_fs True (FileSystemAnalyzer ''.'') = Inr a1"
    by blast
  have c1: "call_analyze_directory ?H scenario_fs False 0 ?h0 =
              Some (Inr (?h0(0 \<mapsto> a0), Stats_of 0))"
    by (simp add: call_analyze_directory_def a0)
  have c2: "call_analyze_directory ?H scenario_fs True 1 (?h0(0 \<mapsto> a0)) =
              Some (Inr (?h0(0 \<mapsto> a0, 1 \<mapsto> a1), Stats_of 1))"
    by (simp add: call_analyze_directory_def a1)
  from returned_report_is_the_analyzers_stats [OF c1] c2
  have "read_report (?h0(0 \<mapsto> a0, 1 \<mapsto> a1)) (Stats_of 0) = read_report (?h0(0 \<mapsto> a0)) (Stats_of 0)"
    by (metis zero_neq_one)
  with c1 c2 show ?thesis by blast
qed

subsection \<open>C7\<close>

text \<open>
  C7. The code at a root that is missing or not a directory: no validation takes place,
  the loop runs over nothing, and the method returns a report of zeros.
\<close>

theorem invalid_root_is_scanned:
  "analyze_directory H (fs(root := \<lparr>root_is_dir = False, listing = its\<rparr>)) fd
       (FileSystemAnalyzer root) =
     Inr \<lparr>root_path = root,
          stats = [''total_size'' \<mapsto> 0, ''total_files'' \<mapsto> 0, ''total_dirs'' \<mapsto> 0],
          duplicates = [], file_types = []\<rparr>"
  by (simp add: analyze_directory_def rglob_def FileSystemAnalyzer_def print_report_def
      dd_touch_def)

subsection \<open>C8\<close>

text \<open>
  C8. The code at a visited path whose \<^verbatim>\<open>is_file()\<close> raises a permission error: the
  probe stands outside the \<^verbatim>\<open>try\<close>, the error leaves analyze_directory, nothing is
  counted and the remaining paths are not visited.
\<close>

theorem probe_error_aborts_scan:
  "analyze_directory H
       (fs(root := \<lparr>root_is_dir = True, listing = it\<lparr>is_file := Inl PermissionError\<rparr> # its\<rparr>))
       fd (FileSystemAnalyzer root) = Inl PermissionError"
  by (simp add: analyze_directory_def rglob_def FileSystemAnalyzer_def process_item_def)

subsection \<open>C9\<close>

text \<open>
  C9. A file whose hashing fails does not abort the scan. The report of the scan is the
  report of the same tree without the file, except that the file is counted in
  total_files and total_size and has its entry in its extension bucket: the duplicates
  mapping is that of the other files alone, and no error is counted for it. Unless another
  visited path has the same string, the path of the file is in no bucket of the
  duplicates mapping.
\<close>

theorem hash_failure_is_local:
  assumes "rglob fs root = before @ it # after"
      and "rglob fs0 root = before @ after"
      and "\<forall>x\<in>set (before @ after). \<not> probe_raises x"
      and "is_file it = Inr True" and "st_size it = Inr sz"
      and "calculate_file_hash H it 65536 = None"
  shows "\<exists>a' a0. analyze_directory H fs True (FileSystemAnalyzer root) = Inr a' \<and>
           analyze_directory H fs0 True (FileSystemAnalyzer root) = Inr a0 \<and>
           duplicates a' = duplicates a0 \<and>
           dd_get (stats a') ''total_files'' = dd_get (stats a0) ''total_files'' + 1 \<and>
           dd_get (stats a') ''total_size'' = dd_get (stats a0) ''total_size'' + sz \<and>
           dd_get (stats a') ''errors'' = dd_get (stats a0) ''errors'' \<and>
           bucket (file_types a') (extension_of it) =
             map entry_of (filter (\<lambda>x. stat_succeeded x \<and> extension_of x = extension_of it) before) @
             \<lparr>entry_path = item_str it, entry_size = sz\<rparr> #
             map entry_of (filter (\<lambda>x. stat_succeeded x \<and> extension_of x = extension_of it) after) \<and>
           ((\<forall>x\<in>set (before @ after). item_str x \<noteq> item_str it) \<longrightarrow>
              (\<forall>(h, ps)\<in>set (duplicates a'). item_str it \<notin> set ps))"
proof -
  note rf = stat_succeededI [OF assms(4,5)]
  have ok: "\<forall>x\<in>set (rglob fs (root_path (FileSystemAnalyzer root))). \<not> probe_raises x"
    using assms(1,3) rf(3) by (auto simp: fresh_fields)
  have ok0: "\<forall>x\<in>set (rglob fs0 (root_path (FileSystemAnalyzer root))). \<not> probe_raises x"
    using assms(2,3) by (auto simp: fresh_fields)
  from analyze_directory_effect [OF ok, of H True] obtain a' where
    a': "analyze_directory H fs True (FileSystemAnalyzer root) = Inr a'"
    and st: "stats a' = dd_touch (dd_touch (dd_touch
              ((tally (before @ it # after) Map.empty)(''total_size'' \<mapsto>
                  sum_list (map stat_size (filter stat_succeeded (before @ it # after)))))
              ''total_files'') ''total_dirs'') ''total_size''"
    and ft: "file_types a' = fold add_entry (before @ it # after) []"
    and du: "duplicates a' = fold (add_duplicate H True) (before @ it # after) []"
    by (auto simp: fresh_fields assms(1))
  from analyze_directory_effect [OF ok0, of H True] obtain a0 where
    a0: "analyze_directory H fs0 True (FileSystemAnalyzer root) = Inr a0"
    and st0: "stats a0 = dd_touch (dd_touch (dd_touch
              ((tally (before @ after) Map.empty)(''total_size'' \<mapsto>
                  sum_list (map stat_size (filter stat_succeeded (before @ after)))))
              ''total_files'') ''total_dirs'') ''total_size''"
    and du0: "duplicates a0 = fold (add_duplicate H True) (before @ after) []"
    by (auto simp: fresh_fields assms(2))
  have "add_duplicate H True it d = d" for d
    using not_hashed_without_digest [OF assms(6)] by (simp add: add_duplicate_def)
  then have d: "duplicates a' = duplicates a0"
    by (simp add: du du0)
  have nf: "\<not> stat_failed it" "\<not> directory it"
    using classes_exclusive(1) [OF rf(1)] by simp_all
  have e: "entry_of it = \<lparr>entry_path = item_str it, entry_size = sz\<rparr>"
    by (simp add: entry_of_def rf(2))
  have b: "bucket (file_types a') (extension_of it) =
             map entry_of (filter (\<lambda>x. stat_succeeded x \<and> extension_of x = extension_of it) before) @
             \<lparr>entry_path = item_str it, entry_size = sz\<rparr> #
             map entry_of (filter (\<lambda>x. stat_succeeded x \<and> extension_of x = extension_of it) after)"
    unfolding ft bucket_fold_add_entry by (simp add: bucket_Nil rf(1) e)
  from stats_reads [OF st] stats_reads [OF st0] rf nf
  have "dd_get (stats a') ''total_files'' = dd_get (stats a0) ''total_files'' + 1"
    "dd_get (stats a') ''total_size'' = dd_get (stats a0) ''total_size'' + sz"
    "dd_get (stats a') ''errors'' = dd_get (stats a0) ''errors''"
    by simp_all
  moreover have "item_str it \<notin> set ps"
    if "\<forall>x\<in>set (before @ after). item_str x \<noteq> item_str it" and "(h, ps) \<in> set (duplicates a')"
    for h ps
  proof -
    from that(2) have "(h, ps) \<in> set (fold (add_duplicate H True) (before @ after) [])"
      by (simp only: d du0)
    from fold_add_duplicate_member [OF this] that(1) show ?thesis
      by auto
  qed
  ultimately show ?thesis
    using a' a0 d b by (intro exI [of _ a'] exI [of _ a0]) auto
qed

theorem hash_failure_is_local_witness:
  "\<exists>a' a0.
     analyze_directory (\<lambda>bs. CHR ''#'' # bs)
       (\<lambda>r. \<lparr>root_is_dir = True, listing = [regular_file ''a.txt'' ''.txt'' ''X'',
          unreadable_file ''s.TXT'' ''.txt'' 7, regular_file ''b.txt'' ''.txt'' ''X'']\<rparr>)
       True (FileSystemAnalyzer ''.'') = Inr a' \<and>
     analyze_directory (\<lambda>bs. CHR ''#'' # bs)
       (\<lambda>r. \<lparr>root_is_dir = True, listing = [regular_file ''a.txt'' ''.txt'' ''X'',
          regular_file ''b.txt'' ''.txt'' ''X'']\<rparr>)
       True (FileSystemAnalyzer ''.'') = Inr a0 \<and>
     duplicates a' = duplicates a0 \<and>
     dd_get (stats a') ''total_files'' = dd_get (stats a0) ''total_files'' + 1 \<and>
     dd_get (stats a') ''total_size'' = dd_get (stats a0) ''total_size'' + 7 \<and>
     bucket (file_types a') ''.txt'' =
       [\<lparr>entry_path = ''a.txt'', entry_size = 1\<rparr>, \<lparr>entry_path = ''s.TXT'', entry_size = 7\<rparr>,
        \<lparr>entry_path = ''b.txt'', entry_size = 1\<rparr>] \<and>
     ''s.TXT'' \<notin> \<Union> (set ` snd ` set (duplicates a'))"
proof -
  let ?it = "unreadable_file ''s.TXT'' ''.txt'' 7"
  have ext: "extension_of ?it = ''.txt''"
    by (simp add: extension_of_def unreadable_file_def)
  from hash_failure_is_local [of
      "\<lambda>r. \<lparr>root_is_dir = True, listing = [regular_file ''a.txt'' ''.txt'' ''X'', ?it,
         regular_file ''b.txt'' ''.txt'' ''X'']\<rparr>"
      "''.''" "[regular_file ''a.txt'' ''.txt'' ''X'']" ?it "[regular_file ''b.txt'' ''.txt'' ''X'']"
      "\<lambda>r. \<lparr>root_is_dir = True, listing = [regular_file ''a.txt'' ''.txt'' ''X'',
         regular_file ''b.txt'' ''.txt'' ''X'']\<rparr>"
      7 "\<lambda>bs. CHR ''#'' # bs"]
  obtain a' a0 where
    "analyze_directory (\<lambda>bs. CHR ''#'' # bs)
       (\<lambda>r. \<lparr>root_is_dir = True, listing = [regular_file ''a.txt'' ''.txt'' ''X'', ?it,
          regular_file ''b.txt'' ''.txt'' ''X'']\<rparr>)
       True (FileSystemAnalyzer ''.'') = Inr a'"
    "analyze_directory (\<lambda>bs. CHR ''#'' # bs)
       (\<lambda>r. \<lparr>root_is_dir = True, listing = [regular_file ''a.txt'' ''.txt'' ''X'',
          regular_file ''b.txt'' ''.txt'' ''X'']\<rparr>)
       True (FileSystemAnalyzer ''.'') = Inr a0"
    "duplicates a' = duplicates a0"
    "dd_get (stats a') ''total_files'' = dd_get (stats a0) ''total_files'' + 1"
    "dd_get (stats a') ''total_size'' = dd_get (stats a0) ''total_size'' + 7"
    "bucket (file_types a') (extension_of ?it) =
       map entry_of (filter (\<lambda>x. stat_succeeded x \<and> extension_of x = extension_of ?it)
          [regular_file ''a.txt'' ''.txt'' ''X'']) @
       \<lparr>entry_path = item_str ?it, entry_size = 7\<rparr> #
       map entry_of (filter (\<lambda>x. stat_succeeded x \<and> extension_of x = extension_of ?it)
          [regular_file ''b.txt'' ''.txt'' ''X''])"
    "\<forall>(h, ps)\<in>set (duplicates a'). item_str ?it \<notin> set ps"
    by (auto simp: rglob_def regular_file_simps unreadable_file_def calculate_file_hash_def)
  moreover have "item_str ?it = ''s.TXT''"
    by (simp add: unreadable_file_def)
  ultimately show ?thesis
    unfolding ext
    by (intro exI [of _ a'] exI [of _ a0])
      (auto simp: regular_file_simps entry_of_def)
qed

subsection \<open>C10\<close>

text \<open>
  C10. With duplicate detection on, every bucket of the duplicates mapping lists, in the
  order of the visit, the paths of the successfully hashed files whose digest is the
  bucket's key.
\<close>

theorem duplicates_in_visit_order:
  assumes "analyze_directory H fs True (FileSystemAnalyzer root) = Inr a'"
  shows "(\<forall>(h, ps)\<in>set (duplicates a').
            ps = map item_str (filter (\<lambda>it. hashed H it \<and> digest_of H it = h) (rglob fs root))) \<and>
         (\<forall>h. bucket (duplicates a') h =
            map item_str (filter (\<lambda>it. hashed H it \<and> digest_of H it = h) (rglob fs root)))"
proof -
  from analyze_directory_returns [OF assms]
  have ok: "\<forall>it\<in>set (rglob fs (root_path (FileSystemAnalyzer root))). \<not> probe_raises it" .
  from analyze_directory_effect [OF ok, of H True] assms
  have d: "duplicates a' = fold (add_duplicate H True) (rglob fs root) []"
    by (auto simp: fresh_fields)
  have b: "bucket (duplicates a') h =
      map item_str (filter (\<lambda>it. hashed H it \<and> digest_of H it = h) (rglob fs root))" for h
    unfolding d by (simp add: bucket_fold_add_duplicate bucket_Nil)
  have dist: "distinct (map fst (duplicates a'))"
    unfolding d by (simp add: distinct_fold_add_duplicate)
  have "ps = map item_str (filter (\<lambda>it. hashed H it \<and> digest_of H it = h) (rglob fs root))"
    if "(h, ps) \<in> set (duplicates a')" for h ps
    using bucket_of_member [OF dist that] b [of h] by simp
  with b show ?thesis by auto
qed

theorem duplicates_in_visit_order_witness:
  "\<exists>a'. analyze_directory (\<lambda>bs. CHR ''#'' # bs) scenario_fs True (FileSystemAnalyzer ''.'') = Inr a' \<and>
        bucket (duplicates a') ''#X'' = [''a.txt'', ''b.txt''] \<and>
        bucket (duplicates a') ''#Y'' = [''c.txt'']"
proof -
  have ok: "\<forall>it\<in>set (rglob scenario_fs (root_path (FileSystemAnalyzer ''.''))). \<not> probe_raises it"
    by (simp add: rglob_def scenario_fs_def regular_file_simps)
  from analyze_directory_effect [OF ok, of "\<lambda>bs. CHR ''#'' # bs" True] obtain a' where
    a': "analyze_directory (\<lambda>bs. CHR ''#'' # bs) scenario_fs True (FileSystemAnalyzer ''.'') = Inr a'"
    by blast
  have "map item_str (filter (\<lambda>it. hashed (\<lambda>bs. CHR ''#'' # bs) it \<and> digest_of (\<lambda>bs. CHR ''#'' # bs) it = h)
          (rglob scenario_fs ''.'')) =
        (if h = ''#X'' then [''a.txt'', ''b.txt''] else if h = ''#Y'' then [''c.txt''] else [])" for h
    by (auto simp: rglob_def scenario_fs_def regular_file_simps)
  with duplicates_in_visit_order [OF a'] a' show ?thesis by auto
qed

end
